theory Spec2Isabelle
  imports Main
begin

section \<open>Bytes and connection sockets\<close>

text \<open>
  The dummy server of \<^verbatim>\<open>dummyserver/server.py\<close> works on byte strings and on
  sockets. A byte string is a list of 8-bit characters. A connection socket is seen from
  the server: \<open>inbound\<close> lists what the successive calls of \<^verbatim>\<open>recv\<close> will return
  (each element is the result of one call, so it is at most the requested number of bytes
  long), \<open>outbound\<close> lists the arguments of the calls of \<^verbatim>\<open>send\<close> so far, and
  \<open>closed\<close> tells whether \<^verbatim>\<open>close\<close> was called. When \<open>inbound\<close> is used up the
  peer has closed the connection, and \<^verbatim>\<open>recv\<close> returns the empty byte string from
  then on.
\<close>

type_synonym bytes = string

definition CRLF :: bytes where
  "CRLF = [CHR 0x0D, CHR 0x0A]"

definition endswith :: "bytes \<Rightarrow> bytes \<Rightarrow> bool" where
  "endswith b suffix =
     (length suffix \<le> length b \<and> drop (length b - length suffix) b = suffix)"

record conn =
  inbound :: "bytes list"
  outbound :: "bytes list"
  closed :: bool

definition recv :: "conn \<Rightarrow> bytes \<times> conn" where
  "recv sock =
     (case inbound sock of
        [] \<Rightarrow> ([], sock)
      | data # later \<Rightarrow> (data, sock\<lparr>inbound := later\<rparr>))"

text \<open>
  \<^verbatim>\<open>
  def consume_socket(sock, chunks=65536):
      while not sock.recv(chunks).endswith(b'\r\n'):
          pass
  \<close>
  The loop has no bound, so it is a partial function: \<open>None\<close> is the run that never
  leaves the loop.
\<close>

partial_function (option) consume_socket :: "conn \<Rightarrow> conn option" where
  "consume_socket sock =
     (case recv sock of
        (data, sock') \<Rightarrow>
          if endswith data CRLF then Some sock' else consume_socket sock')"

declare consume_socket.simps [code]

section \<open>The IPv6 probe\<close>

datatype family = AF_INET | AF_INET6

datatype error = OSError | AttributeError | StartupFailure

datatype event =
    EvWarnNoIPv6
  | EvSocket family
  | EvReuseAddr
  | EvBind family string
  | EvPublishPort nat
  | EvListen
  | EvReady
  | EvSockClose
  | EvIterReady
  | EvAccept nat
  | EvGateSet
  | EvGateWait
  | EvGateClear
  | EvSend nat bytes
  | EvClose nat

text \<open>
  What the operating system answers. \<open>build_has_ipv6\<close> is \<^verbatim>\<open>socket.has_ipv6\<close>,
  \<open>can_create\<close> and \<open>can_bind\<close> tell whether \<^verbatim>\<open>socket.socket(family)\<close> and
  \<^verbatim>\<open>sock.bind((host, 0))\<close> return or raise, \<open>can_listen\<close> the same for
  \<^verbatim>\<open>sock.listen(0)\<close>, \<open>ephemeral_port\<close> is the port the system assigns, and
  \<open>win32\<close> is \<^verbatim>\<open>sys.platform == 'win32'\<close>.
\<close>

record netenv =
  build_has_ipv6 :: bool
  can_create :: "family \<Rightarrow> bool"
  can_bind :: "family \<Rightarrow> string \<Rightarrow> bool"
  can_listen :: bool
  ephemeral_port :: nat
  win32 :: bool

text \<open>
  The local variables of \<^verbatim>\<open>_has_ipv6\<close>: \<open>p_sock\<close> is true when \<^verbatim>\<open>sock\<close> is
  a socket and false when it is \<^verbatim>\<open>None\<close>. The events are those of successful calls.
\<close>

record probe =
  p_sock :: bool
  p_has_ipv6 :: bool
  p_trace :: "event list"

text \<open>
  The body of the \<^verbatim>\<open>try\<close>: an exception leaves it at once, with the assignments made
  so far.
\<close>

definition probe_try :: "netenv \<Rightarrow> string \<Rightarrow> probe \<Rightarrow> error option \<times> probe" where
  "probe_try env host p =
     (if \<not> can_create env AF_INET6 then (Some OSError, p)
      else
        let p1 = p\<lparr>p_sock := True, p_trace := p_trace p @ [EvSocket AF_INET6]\<rparr> in
        if \<not> can_bind env AF_INET6 host then (Some OSError, p1)
        else
          (None, p1\<lparr>p_has_ipv6 := True, p_trace := p_trace p1 @ [EvBind AF_INET6 host]\<rparr>))"

definition has_ipv6 :: "netenv \<Rightarrow> string \<Rightarrow> (error + bool) \<times> event list" where
  "has_ipv6 env host =
     (let p0 = \<lparr>p_sock = False, p_has_ipv6 = False, p_trace = []\<rparr>;
          p1 = (if build_has_ipv6 env
                then (case probe_try env host p0 of
                        (Some e, p') \<Rightarrow> p'
                      | (None, p') \<Rightarrow> p')
                else p0);
          p2 = (if p_sock p1 then p1\<lparr>p_trace := p_trace p1 @ [EvSockClose]\<rparr> else p1)
      in (Inr (p_has_ipv6 p2), p_trace p2))"

definition HAS_IPV6_AND_DNS :: "netenv \<Rightarrow> bool" where
  "HAS_IPV6_AND_DNS env = (fst (has_ipv6 env ''localhost'') = Inr True)"

definition HAS_IPV6 :: "netenv \<Rightarrow> bool" where
  "HAS_IPV6 env = (fst (has_ipv6 env ''::1'') = Inr True)"

section \<open>The state of a test run\<close>

text \<open>
  One record holds everything a run touches.
  \<^item> \<open>trace\<close>: the calls that returned, in order.
  \<^item> \<open>backlog\<close>: the clients that will connect, in order, each given by what the
    server's reads on its connection return.
  \<^item> \<open>conns\<close>: the accepted connection sockets; socket \<open>k\<close> is \<open>conns ! k\<close>.
  \<^item> \<open>listener\<close>, \<open>listener_closed\<close>: the listening socket of the server thread.
  \<^item> \<open>gate_flag\<close>: the flag of the \<^verbatim>\<open>block_send\<close> event; \<open>gate_releases\<close>: how many
    more times the test will set it while the server waits for it.
  \<^item> \<open>thread_ready\<close>: the flag of the \<^verbatim>\<open>ready_event\<close> handed to the thread.
  \<^item> \<open>heap\<close>: the Python list objects holding sockets; a reference is an index.
  \<^item> \<open>thread_port\<close>, \<open>thread_socks\<close>, \<open>thread_USE_IPV6\<close>: the instance attributes
    \<^verbatim>\<open>port\<close>, \<^verbatim>\<open>socks\<close> and \<^verbatim>\<open>USE_IPV6\<close> of the server thread, \<open>None\<close> when
    the instance has no such attribute.
  \<^item> \<open>cls_port\<close>, \<open>cls_socks\<close>: the class attributes \<^verbatim>\<open>port\<close> and \<^verbatim>\<open>socks\<close> of
    the harness class.
\<close>

record world =
  trace :: "event list"
  backlog :: "bytes list list"
  conns :: "conn list"
  listener :: "family option"
  listener_closed :: bool
  gate_flag :: bool
  gate_releases :: nat
  thread_ready :: bool
  heap :: "nat list list"
  thread_port :: "nat option"
  thread_socks :: "nat option"
  thread_USE_IPV6 :: "bool option"
  cls_port :: "nat option"
  cls_socks :: nat

text \<open>
  The state at the start of a test: nothing is open, and the only list object is the
  class attribute \<^verbatim>\<open>socks = []\<close> of \<^verbatim>\<open>SocketDummyServer\<close>, at reference 0.
\<close>

definition fresh :: "bytes list list \<Rightarrow> bool \<Rightarrow> nat \<Rightarrow> world" where
  "fresh clients gate releases =
     \<lparr>trace = [], backlog = clients, conns = [], listener = None,
      listener_closed = False, gate_flag = gate, gate_releases = releases,
      thread_ready = False, heap = [[]], thread_port = None, thread_socks = None,
      thread_USE_IPV6 = None, cls_port = None, cls_socks = 0\<rparr>"

text \<open>
  A call returns a value, raises, or never returns (it blocks, or spins in a loop).
  The state reached is kept in each case.
\<close>

datatype 'a outcome = Returns 'a world | Raises error world | Blocks world

fun then_do :: "'a outcome \<Rightarrow> ('a \<Rightarrow> world \<Rightarrow> 'b outcome) \<Rightarrow> 'b outcome" where
  "then_do (Returns a w) f = f a w"
| "then_do (Raises e w) f = Raises e w"
| "then_do (Blocks w) f = Blocks w"

fun world_of :: "'a outcome \<Rightarrow> world" where
  "world_of (Returns a w) = w"
| "world_of (Raises e w) = w"
| "world_of (Blocks w) = w"

definition emit :: "event \<Rightarrow> world \<Rightarrow> world" where
  "emit e w = w\<lparr>trace := trace w @ [e]\<rparr>"

section \<open>Socket and event primitives\<close>

definition socket_socket :: "netenv \<Rightarrow> family \<Rightarrow> world \<Rightarrow> unit outcome" where
  "socket_socket env fam w =
     (if can_create env fam
      then Returns () (emit (EvSocket fam) (w\<lparr>listener := Some fam, listener_closed := False\<rparr>))
      else Raises OSError w)"

definition sock_bind :: "netenv \<Rightarrow> string \<Rightarrow> world \<Rightarrow> unit outcome" where
  "sock_bind env host w =
     (case listener w of
        None \<Rightarrow> Raises OSError w
      | Some fam \<Rightarrow>
          if can_bind env fam host then Returns () (emit (EvBind fam host) w)
          else Raises OSError w)"

definition sock_listen :: "netenv \<Rightarrow> world \<Rightarrow> unit outcome" where
  "sock_listen env w =
     (if can_listen env then Returns () (emit EvListen w) else Raises OSError w)"

definition sock_close :: "world \<Rightarrow> world" where
  "sock_close w = emit EvSockClose (w\<lparr>listener_closed := True\<rparr>)"

text \<open>\<^verbatim>\<open>listener.accept()[0]\<close>: blocks for ever when no client connects any more.\<close>

definition accept :: "world \<Rightarrow> nat outcome" where
  "accept w =
     (case backlog w of
        [] \<Rightarrow> Blocks w
      | client # later \<Rightarrow>
          Returns (length (conns w))
            (emit (EvAccept (length (conns w)))
               (w\<lparr>backlog := later,
                  conns := conns w @ [\<lparr>inbound = client, outbound = [], closed = False\<rparr>]\<rparr>)))"

definition consume :: "nat \<Rightarrow> world \<Rightarrow> unit outcome" where
  "consume sock w =
     (case consume_socket (conns w ! sock) of
        None \<Rightarrow> Blocks w
      | Some c \<Rightarrow> Returns () (w\<lparr>conns := (conns w)[sock := c]\<rparr>))"

definition send :: "nat \<Rightarrow> bytes \<Rightarrow> world \<Rightarrow> unit outcome" where
  "send sock data w =
     (if closed (conns w ! sock) then Raises OSError w
      else Returns ()
        (emit (EvSend sock data)
           (w\<lparr>conns := (conns w)
                [sock := (conns w ! sock)\<lparr>outbound := outbound (conns w ! sock) @ [data]\<rparr>]\<rparr>)))"

definition conn_close :: "nat \<Rightarrow> world \<Rightarrow> world" where
  "conn_close sock w =
     emit (EvClose sock) (w\<lparr>conns := (conns w)[sock := (conns w ! sock)\<lparr>closed := True\<rparr>]\<rparr>)"

text \<open>
  \<^verbatim>\<open>block_send.wait()\<close> returns when the flag is set. When it is not, the server
  waits until the test sets it, for ever if the test never does.
\<close>

definition gate_wait :: "world \<Rightarrow> unit outcome" where
  "gate_wait w =
     (if gate_flag w then Returns () (emit EvGateWait w)
      else
        (case gate_releases w of
           0 \<Rightarrow> Blocks w
         | Suc k \<Rightarrow>
             Returns ()
               (emit EvGateWait (emit EvGateSet (w\<lparr>gate_releases := k, gate_flag := True\<rparr>)))))"

definition gate_clear :: "world \<Rightarrow> unit outcome" where
  "gate_clear w = Returns () (emit EvGateClear (w\<lparr>gate_flag := False\<rparr>))"

definition list_append :: "nat \<Rightarrow> nat \<Rightarrow> world \<Rightarrow> world" where
  "list_append r x w = w\<lparr>heap := (heap w)[r := heap w ! r @ [x]]\<rparr>"

section \<open>The server threads\<close>

datatype thread_class = SocketServerThread | DelayedSocketServerThread

text \<open>
  \<^verbatim>\<open>__init__\<close>: no \<^verbatim>\<open>port\<close> attribute is set (the parameter is ignored); the
  delayed class binds \<^verbatim>\<open>self.socks\<close> to a new empty list.
\<close>

definition thread_init :: "thread_class \<Rightarrow> world \<Rightarrow> world" where
  "thread_init c w =
     (let w1 = w\<lparr>thread_port := None, thread_socks := None, thread_USE_IPV6 := None\<rparr> in
      case c of
        SocketServerThread \<Rightarrow> w1
      | DelayedSocketServerThread \<Rightarrow>
          w1\<lparr>heap := heap w1 @ [[]], thread_socks := Some (length (heap w1))\<rparr>)"

text \<open>
  \<^verbatim>\<open>self.USE_IPV6\<close>: the instance attribute when there is one, else the class
  attribute \<^verbatim>\<open>USE_IPV6 = HAS_IPV6_AND_DNS\<close>.
\<close>

definition USE_IPV6 :: "netenv \<Rightarrow> world \<Rightarrow> bool" where
  "USE_IPV6 env w =
     (case thread_USE_IPV6 w of Some b \<Rightarrow> b | None \<Rightarrow> HAS_IPV6_AND_DNS env)"

text \<open>
  \<^verbatim>\<open>SocketServerThread._start_server\<close> up to and including \<^verbatim>\<open>ready_event.set()\<close>
  (lines 83 to 98); \<open>ready_event\<close> tells whether an event was supplied.
\<close>

definition listen_phase :: "netenv \<Rightarrow> string \<Rightarrow> bool \<Rightarrow> world \<Rightarrow> unit outcome" where
  "listen_phase env host ready_event w =
     then_do (if USE_IPV6 env w then socket_socket env AF_INET6 w
              else socket_socket env AF_INET (emit EvWarnNoIPv6 w)) (\<lambda>_ w.
     then_do (if \<not> win32 env then Returns () (emit EvReuseAddr w) else Returns () w) (\<lambda>_ w.
     then_do (sock_bind env host w) (\<lambda>_ w.
     then_do (Returns ()
                (emit (EvPublishPort (ephemeral_port env))
                   (w\<lparr>thread_port := Some (ephemeral_port env)\<rparr>))) (\<lambda>_ w.
     then_do (sock_listen env w) (\<lambda>_ w.
     Returns () (if ready_event then emit EvReady (w\<lparr>thread_ready := True\<rparr>) else w))))))"

text \<open>
  \<^verbatim>\<open>_handle_socket\<close>: the base class calls the handler and closes the listening
  socket; the delayed class binds \<^verbatim>\<open>self.socks\<close> to the list the handler returns.
\<close>

definition handle_socket ::
    "thread_class \<Rightarrow> (world \<Rightarrow> nat outcome) \<Rightarrow> world \<Rightarrow> unit outcome" where
  "handle_socket c socket_handler w =
     (case c of
        SocketServerThread \<Rightarrow>
          then_do (socket_handler w) (\<lambda>socks w. Returns () (sock_close w))
      | DelayedSocketServerThread \<Rightarrow>
          then_do (socket_handler w) (\<lambda>socks w. Returns () (w\<lparr>thread_socks := Some socks\<rparr>)))"

text \<open>The whole of \<^verbatim>\<open>_start_server\<close>, as the thread's \<^verbatim>\<open>run\<close> executes it.\<close>

definition thread_start_server ::
    "thread_class \<Rightarrow> netenv \<Rightarrow> string \<Rightarrow> bool \<Rightarrow> (world \<Rightarrow> nat outcome) \<Rightarrow> world
      \<Rightarrow> unit outcome" where
  "thread_start_server c env host ready_event socket_handler w =
     then_do (listen_phase env host ready_event w) (\<lambda>_ w. handle_socket c socket_handler w)"

section \<open>The scripted handlers\<close>

text \<open>
  The closure \<^verbatim>\<open>socket_handler\<close> of \<^verbatim>\<open>SocketDummyServer.start_response_handler\<close>;
  \<^verbatim>\<open>DelayedCloseSocketDummyServer.start_response_handler\<close> defines the same closure
  again, line for line. \<open>block_send\<close> tells whether a gate was supplied; \<open>socks\<close> is
  the reference of the handler's list.
\<close>

definition response_iteration :: "bytes \<Rightarrow> bool \<Rightarrow> nat \<Rightarrow> world \<Rightarrow> unit outcome" where
  "response_iteration response block_send socks w =
     then_do (Returns () (emit EvIterReady w)) (\<lambda>_ w.
     then_do (accept w) (\<lambda>sock w.
     then_do (consume sock w) (\<lambda>_ w.
     then_do (if block_send then then_do (gate_wait w) (\<lambda>_ w. gate_clear w)
              else Returns () w) (\<lambda>_ w.
     then_do (send sock response w) (\<lambda>_ w.
     Returns () (list_append socks sock w))))))"

fun response_loop :: "nat \<Rightarrow> bytes \<Rightarrow> bool \<Rightarrow> nat \<Rightarrow> world \<Rightarrow> unit outcome" where
  "response_loop 0 response block_send socks w = Returns () w"
| "response_loop (Suc n) response block_send socks w =
     then_do (response_iteration response block_send socks w)
       (\<lambda>_ w. response_loop n response block_send socks w)"

definition socket_handler :: "bytes \<Rightarrow> int \<Rightarrow> bool \<Rightarrow> world \<Rightarrow> nat outcome" where
  "socket_handler response num block_send w =
     (let socks = length (heap w) in
      then_do (response_loop (nat num) response block_send socks (w\<lparr>heap := heap w @ [[]]\<rparr>))
        (\<lambda>_ w. Returns socks w))"

text \<open>
  The closure of \<^verbatim>\<open>FTPSocketDummyServer.start_response_handler\<close>. A step payload is
  sent when it is truthy: neither \<^verbatim>\<open>None\<close> nor empty.
\<close>

record ftp_script =
  welcome_first :: "bytes option"
  user_resp :: "bytes option"
  type_i_resp :: "bytes option"
  pasv_resp :: "bytes option"

definition default_script :: ftp_script where
  "default_script =
     \<lparr>welcome_first = Some (''220 Welcome to ftpdummy 0.1'' @ CRLF),
      user_resp = Some (''230 Login successful.'' @ CRLF),
      type_i_resp = Some (''200 Switching to Binary mode.'' @ CRLF),
      pasv_resp = Some (''227 Entering Passive Mode (127,0,0,1,?,?).'' @ CRLF)\<rparr>"

definition send_if :: "nat \<Rightarrow> bytes option \<Rightarrow> world \<Rightarrow> unit outcome" where
  "send_if sock payload w =
     (case payload of
        None \<Rightarrow> Returns () w
      | Some b \<Rightarrow> if b \<noteq> [] then send sock b w else Returns () w)"

definition ftp_iteration ::
    "ftp_script \<Rightarrow> bytes \<Rightarrow> bool \<Rightarrow> nat \<Rightarrow> world \<Rightarrow> unit outcome" where
  "ftp_iteration script response block_send socks w =
     then_do (Returns () (emit EvIterReady w)) (\<lambda>_ w.
     then_do (accept w) (\<lambda>sock w.
     then_do (send_if sock (welcome_first script) w) (\<lambda>_ w.
     then_do (consume sock w) (\<lambda>_ w.
     then_do (send_if sock (user_resp script) w) (\<lambda>_ w.
     then_do (consume sock w) (\<lambda>_ w.
     then_do (send_if sock (type_i_resp script) w) (\<lambda>_ w.
     then_do (consume sock w) (\<lambda>_ w.
     then_do (send_if sock (pasv_resp script) w) (\<lambda>_ w.
     then_do (if block_send then then_do (gate_wait w) (\<lambda>_ w. gate_clear w)
              else Returns () w) (\<lambda>_ w.
     then_do (send sock response w) (\<lambda>_ w.
     Returns () (list_append socks sock w))))))))))))"

fun ftp_loop :: "nat \<Rightarrow> ftp_script \<Rightarrow> bytes \<Rightarrow> bool \<Rightarrow> nat \<Rightarrow> world \<Rightarrow> unit outcome" where
  "ftp_loop 0 script response block_send socks w = Returns () w"
| "ftp_loop (Suc n) script response block_send socks w =
     then_do (ftp_iteration script response block_send socks w)
       (\<lambda>_ w. ftp_loop n script response block_send socks w)"

definition ftp_socket_handler ::
    "ftp_script \<Rightarrow> bytes \<Rightarrow> int \<Rightarrow> bool \<Rightarrow> world \<Rightarrow> nat outcome" where
  "ftp_socket_handler script response num block_send w =
     (let socks = length (heap w) in
      then_do (ftp_loop (nat num) script response block_send socks (w\<lparr>heap := heap w @ [[]]\<rparr>))
        (\<lambda>_ w. Returns socks w))"

section \<open>The harness classes\<close>

datatype harness =
    SocketDummyServer
  | DelayedCloseSocketDummyServer
  | IPV4SocketDummyServer
  | FTPSocketDummyServer

definition server_thread_class :: "harness \<Rightarrow> thread_class" where
  "server_thread_class h =
     (case h of
        SocketDummyServer \<Rightarrow> SocketServerThread
      | DelayedCloseSocketDummyServer \<Rightarrow> DelayedSocketServerThread
      | IPV4SocketDummyServer \<Rightarrow> SocketServerThread
      | FTPSocketDummyServer \<Rightarrow> DelayedSocketServerThread)"

text \<open>
  \<^verbatim>\<open>ready_event.wait(5)\<close> and what follows it in the harness's \<^verbatim>\<open>_start_server\<close>.
  The server thread has run \<open>listen_phase\<close> by then: it either set the event or died
  of an exception, which stays in the thread.
\<close>

definition await_ready :: "unit outcome \<Rightarrow> unit outcome" where
  "await_ready started =
     (let w = world_of started in
      if \<not> thread_ready w then Raises StartupFailure w
      else
        (case thread_port w of
           None \<Rightarrow> Raises AttributeError w
         | Some p \<Rightarrow> Returns () (w\<lparr>cls_port := Some p\<rparr>)))"

text \<open>\<^verbatim>\<open>SocketDummyServer._start_server\<close>, for the thread class of the harness.\<close>

definition base_start_server :: "thread_class \<Rightarrow> netenv \<Rightarrow> string \<Rightarrow> world \<Rightarrow> unit outcome" where
  "base_start_server c env host w =
     await_ready (listen_phase env host True (thread_init c (w\<lparr>thread_ready := False\<rparr>)))"

text \<open>
  \<^verbatim>\<open>DelayedCloseSocketDummyServer._start_server\<close>: after the base method,
  \<^verbatim>\<open>cls.socks = cls.server_thread.socks\<close> copies the reference the thread holds now.
\<close>

definition delayed_start_server :: "netenv \<Rightarrow> string \<Rightarrow> world \<Rightarrow> unit outcome" where
  "delayed_start_server env host w =
     then_do (base_start_server DelayedSocketServerThread env host w) (\<lambda>_ w.
       case thread_socks w of
         None \<Rightarrow> Raises AttributeError w
       | Some r \<Rightarrow> Returns () (w\<lparr>cls_socks := r\<rparr>))"

text \<open>
  \<^verbatim>\<open>IPV4SocketDummyServer._start_server\<close>: always a \<^verbatim>\<open>SocketServerThread\<close>, whose
  instance attribute \<^verbatim>\<open>USE_IPV6\<close> is set to false before the thread starts.
\<close>

definition ipv4_start_server :: "netenv \<Rightarrow> string \<Rightarrow> world \<Rightarrow> unit outcome" where
  "ipv4_start_server env host w =
     await_ready
       (listen_phase env host True
          ((thread_init SocketServerThread (w\<lparr>thread_ready := False\<rparr>))
             \<lparr>thread_USE_IPV6 := Some False\<rparr>))"

definition start_server :: "harness \<Rightarrow> netenv \<Rightarrow> string \<Rightarrow> world \<Rightarrow> unit outcome" where
  "start_server h env host w =
     (case h of
        SocketDummyServer \<Rightarrow> base_start_server SocketServerThread env host w
      | DelayedCloseSocketDummyServer \<Rightarrow> delayed_start_server env host w
      | IPV4SocketDummyServer \<Rightarrow> ipv4_start_server env host w
      | FTPSocketDummyServer \<Rightarrow> delayed_start_server env host w)"

text \<open>
  A scripted test run. \<^verbatim>\<open>start_response_handler\<close> returns to the test once the
  harness's \<^verbatim>\<open>_start_server\<close> has returned; only then does the test know the port,
  so the clients connect afterwards, and the server thread, which was waiting in
  \<^verbatim>\<open>accept\<close>, runs the handler and the rest of \<^verbatim>\<open>_handle_socket\<close>.
\<close>

definition scripted_run ::
    "harness \<Rightarrow> netenv \<Rightarrow> string \<Rightarrow> (world \<Rightarrow> nat outcome) \<Rightarrow> world \<Rightarrow> unit outcome" where
  "scripted_run h env host handler w =
     then_do (start_server h env host w)
       (\<lambda>_ w. handle_socket (server_thread_class h) handler w)"

text \<open>
  \<^verbatim>\<open>
  def cleanup(cls):
      for sock in cls.socks:
          sock.close()
  \<close>
\<close>

definition cleanup :: "world \<Rightarrow> world" where
  "cleanup w = fold conn_close (heap w ! cls_socks w) w"

text \<open>
  The connection sockets that the server thread still holds in its attribute
  \<^verbatim>\<open>socks\<close> and on which \<^verbatim>\<open>close\<close> was never called. The harness class keeps
  the thread in \<^verbatim>\<open>cls.server_thread\<close>, so these sockets are still referenced: no
  call has closed them, and the interpreter has not reclaimed them either. Sockets that
  are no longer referenced (a listening socket after its thread ended, the sockets of a
  list that was dropped) are released by the interpreter and are not counted.
\<close>

definition retained_open :: "world \<Rightarrow> nat list" where
  "retained_open w =
     (case thread_socks w of
        None \<Rightarrow> []
      | Some r \<Rightarrow> filter (\<lambda>k. \<not> closed (conns w ! k)) (heap w ! r))"

section \<open>Auxiliary notions for the proofs\<close>

text \<open>
  The events a scripted handler can add to the trace, the family and the events of a
  successful start of the server thread, and the relation between the state before and
  after a handler ran: the handler adds handler events only and leaves the listening
  socket and the attributes of thread and harness alone.
\<close>

fun handler_event :: "event \<Rightarrow> bool" where
  "handler_event EvIterReady = True"
| "handler_event (EvAccept k) = True"
| "handler_event EvGateSet = True"
| "handler_event EvGateWait = True"
| "handler_event EvGateClear = True"
| "handler_event (EvSend k b) = True"
| "handler_event e = False"

definition chosen_family :: "netenv \<Rightarrow> world \<Rightarrow> family" where
  "chosen_family env w = (if USE_IPV6 env w then AF_INET6 else AF_INET)"

definition startup_events :: "netenv \<Rightarrow> string \<Rightarrow> world \<Rightarrow> event list" where
  "startup_events env host w =
     (if USE_IPV6 env w then [] else [EvWarnNoIPv6]) @ [EvSocket (chosen_family env w)] @
     (if win32 env then [] else [EvReuseAddr]) @
     [EvBind (chosen_family env w) host, EvPublishPort (ephemeral_port env), EvListen]"

definition same_thread_state :: "world \<Rightarrow> world \<Rightarrow> bool" where
  "same_thread_state w w' =
     (listener w' = listener w \<and> listener_closed w' = listener_closed w \<and>
      thread_ready w' = thread_ready w \<and> thread_port w' = thread_port w \<and>
      thread_socks w' = thread_socks w \<and> thread_USE_IPV6 w' = thread_USE_IPV6 w \<and>
      cls_port w' = cls_port w \<and> cls_socks w' = cls_socks w)"

definition extends :: "world \<Rightarrow> world \<Rightarrow> bool" where
  "extends w w' =
     (same_thread_state w w' \<and>
      (\<exists>evs. trace w' = trace w @ evs \<and> list_all handler_event evs))"

text \<open>A sample system for concrete runs: Linux, both address families available.\<close>

definition dual_stack :: netenv where
  "dual_stack =
     \<lparr>build_has_ipv6 = True, can_create = (\<lambda>f. True), can_bind = (\<lambda>f h. True),
      can_listen = True, ephemeral_port = 50000, win32 = False\<rparr>"


text \<open>The sockets accepted and the payloads sent, read off a trace in order.\<close>

primrec accepts :: "event list \<Rightarrow> nat list" where
  "accepts [] = []"
| "accepts (e # es) = (case e of EvAccept k \<Rightarrow> k # accepts es | _ \<Rightarrow> accepts es)"

primrec sends :: "event list \<Rightarrow> (nat \<times> bytes) list" where
  "sends [] = []"
| "sends (e # es) = (case e of EvSend k b \<Rightarrow> (k, b) # sends es | _ \<Rightarrow> sends es)"

text \<open>
  What a gated handler can still send at most: the responses sent so far, plus the releases
  of the gate that are still to come, plus one when the gate is set now.
\<close>

definition pending :: "world \<Rightarrow> nat" where
  "pending w = length (sends (trace w)) + gate_releases w + (if gate_flag w then 1 else 0)"

section \<open>Facts about the request drain\<close>

lemma endswith_Nil: "\<not> endswith [] CRLF"
  by (simp add: endswith_def CRLF_def)

lemma consume_socket_needs_terminator:
  assumes "consume_socket sock = Some r"
  shows "\<exists>data \<in> set (inbound sock). endswith data CRLF"
proof (rule consume_socket.raw_induct
    [where P = "\<lambda>s r. \<exists>data \<in> set (inbound s). endswith data CRLF", OF _ assms])
  fix consume :: "conn \<Rightarrow> conn option" and sock r
  assume IH: "\<And>s r'. consume s = Some r' \<Longrightarrow> \<exists>data \<in> set (inbound s). endswith data CRLF"
  assume step: "(case recv sock of (data, sock') \<Rightarrow>
          if endswith data CRLF then Some sock' else consume sock') = Some r"
  show "\<exists>data \<in> set (inbound sock). endswith data CRLF"
  proof (cases "inbound sock")
    case Nil
    with step have "consume sock = Some r"
      by (simp add: recv_def endswith_Nil)
    from IH[OF this] Nil show ?thesis by simp
  next
    case (Cons data later)
    show ?thesis
    proof (cases "endswith data CRLF")
      case True
      with Cons show ?thesis by auto
    next
      case False
      with step Cons have "consume (sock\<lparr>inbound := later\<rparr>) = Some r"
        by (simp add: recv_def)
      from IH[OF this] Cons show ?thesis by auto
    qed
  qed
qed

lemma consume_socket_eof: "inbound sock = [] \<Longrightarrow> consume_socket sock = None"
  using consume_socket_needs_terminator[of sock] by (cases "consume_socket sock") auto

lemma consume_socket_Cons:
  "inbound sock = data # later \<Longrightarrow>
   consume_socket sock =
     (if endswith data CRLF then Some (sock\<lparr>inbound := later\<rparr>)
      else consume_socket (sock\<lparr>inbound := later\<rparr>))"
  by (subst consume_socket.simps) (simp add: recv_def)

lemma consume_socket_never:
  "\<forall>data \<in> set (inbound sock). \<not> endswith data CRLF \<Longrightarrow> consume_socket sock = None"
  using consume_socket_needs_terminator[of sock] by (cases "consume_socket sock") auto

lemma consume_socket_first:
  "inbound sock = pre @ data # later \<Longrightarrow> \<forall>p \<in> set pre. \<not> endswith p CRLF \<Longrightarrow>
   endswith data CRLF \<Longrightarrow> consume_socket sock = Some (sock\<lparr>inbound := later\<rparr>)"
proof (induction pre arbitrary: sock)
  case Nil
  then show ?case by (simp add: consume_socket_Cons)
next
  case (Cons p pre)
  from Cons.prems have inb: "inbound sock = p # (pre @ data # later)" and np: "\<not> endswith p CRLF"
    by simp_all
  have "consume_socket (sock\<lparr>inbound := pre @ data # later\<rparr>) =
        Some (sock\<lparr>inbound := pre @ data # later, inbound := later\<rparr>)"
    using Cons.prems by (intro Cons.IH) simp_all
  then show ?case
    by (simp add: consume_socket_Cons[OF inb] np)
qed

lemma endswith_iff: "endswith b s \<longleftrightarrow> (\<exists>x. b = x @ s)"
proof
  assume "endswith b s"
  then have "take (length b - length s) b @ s = b"
    unfolding endswith_def by (metis append_take_drop_id)
  then show "\<exists>x. b = x @ s" by metis
next
  assume "\<exists>x. b = x @ s"
  then obtain x where "b = x @ s" ..
  then show "endswith b s" by (simp add: endswith_def)
qed

lemma endswith_split_CR: "\<not> endswith (x @ [CHR 0x0D]) CRLF"
proof
  assume "endswith (x @ [CHR 0x0D]) CRLF"
  then obtain z where "x @ [CHR 0x0D] = z @ CRLF" by (auto simp add: endswith_iff)
  then have "last (x @ [CHR 0x0D]) = last (z @ CRLF)" by simp
  then show False by (simp add: CRLF_def)
qed

lemma endswith_split_LF: "endswith (CHR 0x0A # y) CRLF = endswith y CRLF"
proof
  assume "endswith (CHR 0x0A # y) CRLF"
  then obtain z where z: "CHR 0x0A # y = z @ CRLF" by (auto simp add: endswith_iff)
  show "endswith y CRLF"
  proof (cases z)
    case Nil
    with z show ?thesis by (simp add: CRLF_def)
  next
    case (Cons a z')
    with z have "y = z' @ CRLF" by simp
    then show ?thesis by (auto simp add: endswith_iff)
  qed
next
  assume "endswith y CRLF"
  then obtain z where "y = z @ CRLF" by (auto simp add: endswith_iff)
  then have "CHR 0x0A # y = (CHR 0x0A # z) @ CRLF" by simp
  then show "endswith (CHR 0x0A # y) CRLF" unfolding endswith_iff by blast
qed

section \<open>Facts about the server thread and the handlers\<close>

lemma listen_phase_ok:
  assumes "can_create env (chosen_family env w)" "can_bind env (chosen_family env w) host"
    "can_listen env"
  shows "listen_phase env host ready_event w =
     Returns ()
       (w\<lparr>trace := trace w @ startup_events env host w @ (if ready_event then [EvReady] else []),
          listener := Some (chosen_family env w), listener_closed := False,
          thread_port := Some (ephemeral_port env),
          thread_ready := (ready_event \<or> thread_ready w)\<rparr>)"
  using assms
  by (cases "USE_IPV6 env w")
     (simp_all add: listen_phase_def chosen_family_def startup_events_def socket_socket_def
      sock_bind_def sock_listen_def emit_def)

lemma listen_phase_fails:
  assumes "\<not> (can_create env (chosen_family env w) \<and> can_bind env (chosen_family env w) host \<and>
    can_listen env)"
  shows "\<exists>w'. listen_phase env host ready_event w = Raises OSError w' \<and>
     thread_ready w' = thread_ready w \<and>
     (\<exists>evs. trace w' = trace w @ evs \<and> EvReady \<notin> set evs)"
  using assms
  by (cases "USE_IPV6 env w")
     (auto simp add: listen_phase_def chosen_family_def socket_socket_def
      sock_bind_def sock_listen_def emit_def)

lemma extends_refl: "extends w w"
  by (simp add: extends_def same_thread_state_def)

lemma extends_trans: "extends w w' \<Longrightarrow> extends w' w'' \<Longrightarrow> extends w w''"
  by (auto simp add: extends_def same_thread_state_def)

lemma then_do_extends:
  assumes "extends w (world_of m)"
    and "\<And>a w1. m = Returns a w1 \<Longrightarrow> extends w1 (world_of (f a w1))"
  shows "extends w (world_of (then_do m f))"
proof (cases m)
  case (Returns a w1)
  with assms(1) have "extends w w1" by simp
  from extends_trans[OF this assms(2)[OF Returns]] Returns show ?thesis by simp
next
  case (Raises e w1)
  with assms(1) show ?thesis by simp
next
  case (Blocks w1)
  with assms(1) show ?thesis by simp
qed

lemma emit_extends: "handler_event e \<Longrightarrow> extends w (world_of (Returns a (emit e w)))"
  by (simp add: extends_def same_thread_state_def emit_def)

lemma accept_extends: "extends w (world_of (accept w))"
  by (simp add: accept_def extends_def same_thread_state_def emit_def split: list.splits)

lemma consume_extends: "extends w (world_of (consume sock w))"
  by (simp add: consume_def extends_def same_thread_state_def split: option.splits)

lemma send_extends: "extends w (world_of (send sock data w))"
  by (simp add: send_def extends_def same_thread_state_def emit_def)

lemma send_if_extends: "extends w (world_of (send_if sock payload w))"
  by (simp add: send_if_def send_extends extends_refl split: option.splits)

lemma gate_wait_extends: "extends w (world_of (gate_wait w))"
  by (simp add: gate_wait_def extends_def same_thread_state_def emit_def split: nat.splits)

lemma gate_clear_extends: "extends w (world_of (gate_clear w))"
  by (simp add: gate_clear_def extends_def same_thread_state_def emit_def)

lemma gate_extends:
  "extends w (world_of (if block_send then then_do (gate_wait w) (\<lambda>_ w. gate_clear w)
                        else Returns () w))"
  by (simp add: extends_refl then_do_extends gate_wait_extends gate_clear_extends)

lemma list_append_extends: "extends w (world_of (Returns a (list_append r x w)))"
  by (simp add: list_append_def extends_def same_thread_state_def)

lemma response_iteration_extends:
  "extends w (world_of (response_iteration response block_send socks w))"
  unfolding response_iteration_def
  by (intro then_do_extends emit_extends accept_extends consume_extends gate_extends
      send_extends list_append_extends) simp

lemma ftp_iteration_extends:
  "extends w (world_of (ftp_iteration script response block_send socks w))"
  unfolding ftp_iteration_def
  by (intro then_do_extends emit_extends accept_extends consume_extends gate_extends
      send_extends send_if_extends list_append_extends) simp

lemma response_loop_extends:
  "extends w (world_of (response_loop n response block_send socks w))"
proof (induction n arbitrary: w)
  case 0
  show ?case by (simp add: extends_refl)
next
  case (Suc n)
  show ?case
  proof (cases "response_iteration response block_send socks w")
    case (Returns u w1)
    with response_iteration_extends[of w response block_send socks]
    have "extends w w1" by simp
    from extends_trans[OF this Suc.IH[of w1]] Returns show ?thesis by simp
  next
    case (Raises e w1)
    with response_iteration_extends[of w response block_send socks] show ?thesis by simp
  next
    case (Blocks w1)
    with response_iteration_extends[of w response block_send socks] show ?thesis by simp
  qed
qed

lemma socket_handler_extends:
  "extends w (world_of (socket_handler response num block_send w))"
proof -
  let ?w0 = "w\<lparr>heap := heap w @ [[]]\<rparr>"
  have a: "extends w ?w0" by (simp add: extends_def same_thread_state_def)
  have b: "extends ?w0 (world_of (response_loop (nat num) response block_send (length (heap w)) ?w0))"
    by (rule response_loop_extends)
  have "world_of (socket_handler response num block_send w) =
        world_of (response_loop (nat num) response block_send (length (heap w)) ?w0)"
    by (cases "response_loop (nat num) response block_send (length (heap w)) ?w0")
       (simp_all add: socket_handler_def)
  with extends_trans[OF a b] show ?thesis by simp
qed

lemma ftp_loop_extends:
  "extends w (world_of (ftp_loop n script response block_send socks w))"
proof (induction n arbitrary: w)
  case 0
  show ?case by (simp add: extends_refl)
next
  case (Suc n)
  show ?case
    by (simp del: then_do.simps) (intro then_do_extends ftp_iteration_extends Suc.IH)
qed

lemma ftp_socket_handler_extends:
  "extends w (world_of (ftp_socket_handler script response num block_send w))"
proof -
  let ?w0 = "w\<lparr>heap := heap w @ [[]]\<rparr>"
  have a: "extends w ?w0" by (simp add: extends_def same_thread_state_def)
  have b: "extends ?w0 (world_of (then_do
      (ftp_loop (nat num) script response block_send (length (heap w)) ?w0)
      (\<lambda>_ w. Returns (length (heap w0)) w)))" for w0
    by (intro then_do_extends ftp_loop_extends) (simp add: extends_refl)
  from extends_trans[OF a b] show ?thesis by (simp add: ftp_socket_handler_def Let_def)
qed

lemma handler_events_no_startup:
  assumes "list_all handler_event evs"
  shows "EvReady \<notin> set evs \<and> EvListen \<notin> set evs \<and> EvSockClose \<notin> set evs \<and>
     (\<forall>f. EvSocket f \<notin> set evs) \<and> (\<forall>f h. EvBind f h \<notin> set evs) \<and>
     (\<forall>p. EvPublishPort p \<notin> set evs)"
  using assms by (induction evs) auto

lemma handle_socket_trace:
  assumes h: "\<And>w. extends w (world_of (h w))"
  shows "\<exists>evs. trace (world_of (handle_socket c h w1)) = trace w1 @ evs \<and> EvReady \<notin> set evs \<and>
     (\<forall>f. EvSocket f \<notin> set evs) \<and>
     listener (world_of (handle_socket c h w1)) = listener w1"
proof -
  from h[of w1] obtain evs where
    evs: "trace (world_of (h w1)) = trace w1 @ evs" "list_all handler_event evs"
    and l: "listener (world_of (h w1)) = listener w1"
    by (auto simp add: extends_def same_thread_state_def)
  from handler_events_no_startup[OF evs(2)]
  have no: "EvReady \<notin> set evs" "\<forall>f. EvSocket f \<notin> set evs" by simp_all
  show ?thesis
  proof (cases "h w1")
    case (Returns socks w2)
    with evs l no show ?thesis
      by (cases c) (simp_all add: handle_socket_def sock_close_def emit_def)
  next
    case (Raises e w2)
    with evs l no show ?thesis
      by (cases c) (simp_all add: handle_socket_def)
  next
    case (Blocks w2)
    with evs l no show ?thesis
      by (cases c) (simp_all add: handle_socket_def)
  qed
qed



section \<open>Evaluating concrete runs\<close>

lemmas prim_defs = socket_socket_def sock_bind_def sock_listen_def sock_close_def accept_def
  consume_def send_def conn_close_def gate_wait_def gate_clear_def list_append_def emit_def

lemmas thread_defs = thread_init_def USE_IPV6_def listen_phase_def handle_socket_def
  thread_start_server_def HAS_IPV6_AND_DNS_def has_ipv6_def probe_try_def

lemmas harness_defs = server_thread_class_def await_ready_def base_start_server_def
  delayed_start_server_def ipv4_start_server_def start_server_def scripted_run_def cleanup_def

lemmas handler_defs = response_iteration_def socket_handler_def send_if_def ftp_iteration_def
  ftp_socket_handler_def


lemma consume_socket_step:
  "consume_socket \<lparr>inbound = data # later, outbound = out, closed = c\<rparr> =
     (if endswith data CRLF then Some \<lparr>inbound = later, outbound = out, closed = c\<rparr>
      else consume_socket \<lparr>inbound = later, outbound = out, closed = c\<rparr>)"
  by (simp add: consume_socket_Cons[of _ data later])

lemma consume_socket_end:
  "consume_socket \<lparr>inbound = [], outbound = out, closed = c\<rparr> = None"
  by (simp add: consume_socket_eof)

lemmas drain_eval = consume_socket_step consume_socket_end endswith_def CRLF_def

lemma dual_stack_six: "HAS_IPV6_AND_DNS dual_stack"
  by (simp add: dual_stack_def HAS_IPV6_AND_DNS_def has_ipv6_def probe_try_def)

section \<open>Facts about the handshake handler\<close>




section \<open>Facts about the response handler\<close>

lemma accepts_append: "accepts (xs @ ys) = accepts xs @ accepts ys"
  by (induction xs) (simp_all split: event.splits)

lemma sends_append: "sends (xs @ ys) = sends xs @ sends ys"
  by (induction xs) (simp_all split: event.splits)

lemma consume_socket_some:
  assumes "\<exists>data \<in> set (inbound sock). endswith data CRLF"
  shows "\<exists>unread. consume_socket sock = Some (sock\<lparr>inbound := unread\<rparr>)"
proof -
  from assms obtain pre data later where
    split: "inbound sock = pre @ data # later" "endswith data CRLF"
      "\<forall>p \<in> set pre. \<not> endswith p CRLF"
    using split_list_first_prop[of "inbound sock" "\<lambda>d. endswith d CRLF"] by blast
  from consume_socket_first[OF split(1) split(3) split(2)] show ?thesis by blast
qed

lemma consume_socket_fields:
  assumes "consume_socket sock = Some r"
  shows "\<exists>unread. r = sock\<lparr>inbound := unread\<rparr>"
  using consume_socket_some[OF consume_socket_needs_terminator[OF assms]] assms by auto

lemma response_iteration_ok:
  assumes "backlog w = client # others"
    and "\<exists>data \<in> set client. endswith data CRLF"
    and "block_send \<longrightarrow> gate_flag w \<or> 0 < gate_releases w"
  shows "\<exists>w' unread. response_iteration response block_send socks w = Returns () w' \<and>
     backlog w' = others \<and>
     conns w' = conns w @ [\<lparr>inbound = unread, outbound = [response], closed = False\<rparr>] \<and>
     accepts (trace w') = accepts (trace w) @ [length (conns w)] \<and>
     sends (trace w') = sends (trace w) @ [(length (conns w), response)] \<and>
     heap w' = (heap w)[socks := heap w ! socks @ [length (conns w)]] \<and>
     (block_send \<longrightarrow> \<not> gate_flag w' \<and>
        gate_releases w' = (if gate_flag w then gate_releases w else gate_releases w - 1)) \<and>
     (\<not> block_send \<longrightarrow> gate_flag w' = gate_flag w \<and> gate_releases w' = gate_releases w)"
proof -
  let ?c = "\<lparr>inbound = client, outbound = [], closed = False\<rparr>"
  from consume_socket_some[of ?c] assms(2) obtain unread where
    u: "consume_socket ?c = Some \<lparr>inbound = unread, outbound = [], closed = False\<rparr>"
    by auto
  show ?thesis
    using assms(1,3) u
    by (cases block_send; cases "gate_flag w"; cases "gate_releases w")
       (simp_all add: response_iteration_def accept_def emit_def consume_def
        send_def gate_wait_def gate_clear_def list_append_def accepts_append sends_append)
qed

lemma response_loop_ok:
  assumes "backlog w = clients @ others"
    and "\<forall>client \<in> set clients. \<exists>data \<in> set client. endswith data CRLF"
    and "block_send \<longrightarrow> length clients \<le> gate_releases w + (if gate_flag w then 1 else 0)"
    and "socks < length (heap w)"
  shows "\<exists>w' new. response_loop (length clients) response block_send socks w = Returns () w' \<and>
     backlog w' = others \<and>
     conns w' = conns w @ new \<and> length new = length clients \<and>
     (\<forall>c \<in> set new. outbound c = [response] \<and> \<not> closed c) \<and>
     accepts (trace w') =
       accepts (trace w) @ [length (conns w) ..< length (conns w) + length clients] \<and>
     sends (trace w') =
       sends (trace w) @
       map (\<lambda>s. (s, response)) [length (conns w) ..< length (conns w) + length clients] \<and>
     heap w' = (heap w)
       [socks := heap w ! socks @ [length (conns w) ..< length (conns w) + length clients]]"
  using assms
proof (induction clients arbitrary: w)
  case Nil
  then show ?case by simp
next
  case (Cons client clients)
  let ?n = "length (conns w)"
  have gate1: "block_send \<longrightarrow> gate_flag w \<or> 0 < gate_releases w"
    using Cons.prems(3) by (auto split: if_splits)
  from Cons.prems(1) have b: "backlog w = client # (clients @ others)" by simp
  from Cons.prems(2) have c: "\<exists>data \<in> set client. endswith data CRLF" by simp
  from response_iteration_ok[OF b c gate1, of response socks] obtain w1 unread where
    it: "response_iteration response block_send socks w = Returns () w1"
    and b1: "backlog w1 = clients @ others"
    and c1: "conns w1 = conns w @ [\<lparr>inbound = unread, outbound = [response], closed = False\<rparr>]"
    and a1: "accepts (trace w1) = accepts (trace w) @ [?n]"
    and s1: "sends (trace w1) = sends (trace w) @ [(?n, response)]"
    and h1: "heap w1 = (heap w)[socks := heap w ! socks @ [?n]]"
    and g1: "block_send \<longrightarrow> \<not> gate_flag w1 \<and>
        gate_releases w1 = (if gate_flag w then gate_releases w else gate_releases w - 1)"
    by blast
  have gate2: "block_send \<longrightarrow>
      length clients \<le> gate_releases w1 + (if gate_flag w1 then 1 else 0)"
    using Cons.prems(3) g1 by (auto split: if_splits)
  have sk: "socks < length (heap w1)" using Cons.prems(4) h1 by simp
  from Cons.prems(2) have rest: "\<forall>client \<in> set clients. \<exists>data \<in> set client. endswith data CRLF"
    by simp
  from Cons.IH[OF b1 rest gate2 sk] obtain w' new where
    lp: "response_loop (length clients) response block_send socks w1 = Returns () w'"
    and b2: "backlog w' = others"
    and c2: "conns w' = conns w1 @ new" "length new = length clients"
      "\<forall>c \<in> set new. outbound c = [response] \<and> \<not> closed c"
    and a2: "accepts (trace w') =
       accepts (trace w1) @ [length (conns w1) ..< length (conns w1) + length clients]"
    and s2: "sends (trace w') = sends (trace w1) @
       map (\<lambda>s. (s, response)) [length (conns w1) ..< length (conns w1) + length clients]"
    and h2: "heap w' = (heap w1)
       [socks := heap w1 ! socks @ [length (conns w1) ..< length (conns w1) + length clients]]"
    by blast
  have n1: "length (conns w1) = Suc ?n" using c1 by simp
  have upt: "[?n ..< ?n + length (client # clients)] = ?n # [Suc ?n ..< Suc ?n + length clients]"
    by (simp add: upt_rec)
  let ?new = "\<lparr>inbound = unread, outbound = [response], closed = False\<rparr> # new"
  have r: "response_loop (length (client # clients)) response block_send socks w = Returns () w'"
    using it lp by simp
  have cn: "conns w' = conns w @ ?new" using c1 c2(1) by simp
  have ln: "length ?new = length (client # clients)" using c2(2) by simp
  have out: "\<forall>c \<in> set ?new. outbound c = [response] \<and> \<not> closed c" using c2(3) by simp
  have ac: "accepts (trace w') = accepts (trace w) @ [?n ..< ?n + length (client # clients)]"
    unfolding upt using a2 a1 n1 by simp
  have se: "sends (trace w') = sends (trace w) @
       map (\<lambda>s. (s, response)) [?n ..< ?n + length (client # clients)]"
    unfolding upt using s2 s1 n1 by simp
  have hp: "heap w' = (heap w)[socks := heap w ! socks @ [?n ..< ?n + length (client # clients)]]"
    unfolding upt using h2 h1 n1 Cons.prems(4) by simp
  from r b2 cn ln out ac se hp show ?case by blast
qed

section \<open>Facts about the pacing gate\<close>

lemma response_iteration_pending:
  "pending (world_of (response_iteration response True socks w)) \<le> pending w"
  by (auto simp add: pending_def response_iteration_def accept_def emit_def consume_def
      send_def gate_wait_def gate_clear_def list_append_def sends_append
      split: list.splits option.splits nat.splits)

lemma response_loop_pending:
  "pending (world_of (response_loop n response True socks w)) \<le> pending w"
proof (induction n arbitrary: w)
  case 0
  show ?case by simp
next
  case (Suc n)
  show ?case
  proof (cases "response_iteration response True socks w")
    case (Returns u w1)
    with response_iteration_pending[of response socks w] have "pending w1 \<le> pending w" by simp
    with Suc.IH[of w1] Returns show ?thesis by simp
  next
    case (Raises e w1)
    with response_iteration_pending[of response socks w] show ?thesis by simp
  next
    case (Blocks w1)
    with response_iteration_pending[of response socks w] show ?thesis by simp
  qed
qed

lemma socket_handler_pending:
  "pending (world_of (socket_handler response num True w)) \<le> pending w"
proof -
  let ?w0 = "w\<lparr>heap := heap w @ [[]]\<rparr>"
  have "world_of (socket_handler response num True w) =
        world_of (response_loop (nat num) response True (length (heap w)) ?w0)"
    by (cases "response_loop (nat num) response True (length (heap w)) ?w0")
       (simp_all add: socket_handler_def)
  moreover have "pending ?w0 = pending w" by (simp add: pending_def)
  ultimately show ?thesis
    using response_loop_pending[of "nat num" response "length (heap w)" ?w0] by simp
qed

lemma response_iteration_unreleased:
  assumes "\<not> gate_flag w" and "gate_releases w = 0"
  shows "\<exists>w'. response_iteration response True socks w = Blocks w' \<and>
     sends (trace w') = sends (trace w) \<and>
     (\<forall>c \<in> set (drop (length (conns w)) (conns w')). outbound c = [])"
  using assms
  by (auto simp add: response_iteration_def accept_def emit_def consume_def
      gate_wait_def sends_append split: list.splits option.splits
      dest!: consume_socket_fields)

lemma response_iteration_released:
  assumes "response_iteration response True socks w = Returns () w'"
  shows "\<exists>pre. trace w' = trace w @ pre @
       [EvGateWait, EvGateClear, EvSend (length (conns w)) response] \<and>
     sends pre = [] \<and> (gate_flag w \<or> EvGateSet \<in> set pre) \<and> \<not> gate_flag w'"
  using assms
  by (auto simp add: response_iteration_def accept_def emit_def consume_def
      send_def gate_wait_def gate_clear_def list_append_def
      split: list.splits option.splits nat.splits if_splits)

section \<open>The request drain: termination\<close>

text \<open>
  C2, as the specification states it: for every input stream \<^verbatim>\<open>consume_socket\<close>
  terminates, and a read of zero bytes after the peer closed counts as completion. The
  loop tests nothing but the suffix of each read, and the empty byte string does not end
  with CR LF: a peer that sends \<^verbatim>\<open>QUIT\<close> without a line terminator and closes leaves
  the loop running for ever.
\<close>

theorem consume_socket_eof_counterexample:
  "consume_socket \<lparr>inbound = [''QUIT''], outbound = [], closed = False\<rparr> = None"
  by (rule consume_socket_never) (simp add: endswith_def CRLF_def)

text \<open>
  C2, amended: \<^verbatim>\<open>consume_socket\<close> returns exactly when some read's bytes end with
  CR LF. It returns at the first such read and leaves the later reads unread. When no read
  ends with CR LF, which includes every stream on which the peer closes first, it never
  returns: a read of zero bytes is not treated as completion.
\<close>

theorem consume_socket_returns_iff:
  "((\<exists>data \<in> set (inbound sock). endswith data CRLF) \<longrightarrow>
      (\<exists>pre data later. inbound sock = pre @ data # later \<and>
         (\<forall>p \<in> set pre. \<not> endswith p CRLF) \<and> endswith data CRLF \<and>
         consume_socket sock = Some (sock\<lparr>inbound := later\<rparr>))) \<and>
   ((\<forall>data \<in> set (inbound sock). \<not> endswith data CRLF) \<longrightarrow> consume_socket sock = None)"
proof (intro conjI impI)
  assume "\<exists>data \<in> set (inbound sock). endswith data CRLF"
  then obtain pre data later where
    split: "inbound sock = pre @ data # later" "endswith data CRLF"
      "\<forall>p \<in> set pre. \<not> endswith p CRLF"
    using split_list_first_prop[of "inbound sock" "\<lambda>d. endswith d CRLF"] by blast
  from consume_socket_first[OF split(1) split(3) split(2)] split
  show "\<exists>pre data later. inbound sock = pre @ data # later \<and>
         (\<forall>p \<in> set pre. \<not> endswith p CRLF) \<and> endswith data CRLF \<and>
         consume_socket sock = Some (sock\<lparr>inbound := later\<rparr>)"
    by blast
next
  assume "\<forall>data \<in> set (inbound sock). \<not> endswith data CRLF"
  then show "consume_socket sock = None" by (rule consume_socket_never)
qed

theorem consume_socket_returns_iff_witness:
  "consume_socket \<lparr>inbound = [''USER a'', ''nonymous'' @ CRLF, ''TYPE I'' @ CRLF],
      outbound = [], closed = False\<rparr> =
     Some \<lparr>inbound = [''TYPE I'' @ CRLF], outbound = [], closed = False\<rparr> \<and>
   consume_socket \<lparr>inbound = [], outbound = [], closed = False\<rparr> = None"
proof -
  let ?s = "\<lparr>inbound = [''USER a'', ''nonymous'' @ CRLF, ''TYPE I'' @ CRLF],
      outbound = [], closed = False\<rparr>"
  let ?e = "\<lparr>inbound = [], outbound = [], closed = False\<rparr>"
  have ends: "\<not> endswith ''USER a'' CRLF" "endswith (''nonymous'' @ CRLF) CRLF"
    by (simp_all add: endswith_def CRLF_def)
  have "\<exists>data \<in> set (inbound ?s). endswith data CRLF" using ends by simp
  with consume_socket_returns_iff[of ?s] obtain pre data later where
    h: "inbound ?s = pre @ data # later" "\<forall>p \<in> set pre. \<not> endswith p CRLF"
       "endswith data CRLF" "consume_socket ?s = Some (?s\<lparr>inbound := later\<rparr>)"
    by blast
  have "pre = [''USER a'']"
  proof (cases pre)
    case Nil
    with h(1) h(3) ends show ?thesis by simp
  next
    case (Cons a pre')
    show ?thesis
    proof (cases pre')
      case Nil
      with Cons h(1) show ?thesis by simp
    next
      case (Cons b pre'')
      with \<open>pre = a # pre'\<close> h(1) h(2) ends show ?thesis by simp
    qed
  qed
  with h(1) have "later = [''TYPE I'' @ CRLF]" by simp
  with h(4) have a: "consume_socket ?s = Some \<lparr>inbound = [''TYPE I'' @ CRLF], outbound = [], closed = False\<rparr>"
    by simp
  have b: "consume_socket ?e = None"
    using consume_socket_returns_iff[of ?e] by simp
  from a b show ?thesis by simp
qed

section \<open>The request drain: a terminator split over two reads\<close>

text \<open>
  C10: \<^verbatim>\<open>consume_socket\<close> completes only on a read whose own bytes end with CR LF.
  A read that ends with CR does not pass the test, and a read that starts with LF passes
  it only when its remaining bytes end with CR LF themselves. So when the terminator is
  split, CR closing one read and LF being the next read, the drain goes on with the reads
  that follow, as if the two had not been there.
\<close>

theorem split_terminator_not_seen:
  "(consume_socket sock = Some r \<longrightarrow>
      (\<exists>pre data. inbound sock = pre @ data # inbound r \<and> endswith data CRLF)) \<and>
   \<not> endswith (x @ [CHR 0x0D]) CRLF \<and>
   endswith (CHR 0x0A # y) CRLF = endswith y CRLF \<and>
   consume_socket \<lparr>inbound = (x @ [CHR 0x0D]) # [CHR 0x0A] # later, outbound = out, closed = c\<rparr> =
     consume_socket \<lparr>inbound = later, outbound = out, closed = c\<rparr>"
proof (intro conjI impI)
  assume ret: "consume_socket sock = Some r"
  then have "\<exists>data \<in> set (inbound sock). endswith data CRLF"
    by (rule consume_socket_needs_terminator)
  then obtain pre data later where
    split: "inbound sock = pre @ data # later" "endswith data CRLF"
      "\<forall>p \<in> set pre. \<not> endswith p CRLF"
    using split_list_first_prop[of "inbound sock" "\<lambda>d. endswith d CRLF"] by blast
  from consume_socket_first[OF split(1) split(3) split(2)] ret
  have "r = sock\<lparr>inbound := later\<rparr>" by simp
  with split show "\<exists>pre data. inbound sock = pre @ data # inbound r \<and> endswith data CRLF"
    by auto
next
  show "\<not> endswith (x @ [CHR 0x0D]) CRLF" by (rule endswith_split_CR)
next
  show "endswith (CHR 0x0A # y) CRLF = endswith y CRLF" by (rule endswith_split_LF)
next
  have lf: "\<not> endswith [CHR 0x0A] CRLF" by (simp add: endswith_def CRLF_def)
  show "consume_socket \<lparr>inbound = (x @ [CHR 0x0D]) # [CHR 0x0A] # later, outbound = out, closed = c\<rparr> =
     consume_socket \<lparr>inbound = later, outbound = out, closed = c\<rparr>"
    by (simp add: consume_socket_Cons[of _ "x @ [CHR 0x0D]" "[CHR 0x0A] # later"]
        consume_socket_Cons[of _ "[CHR 0x0A]" later] endswith_split_CR lf)
qed

theorem split_terminator_not_seen_witness:
  "consume_socket \<lparr>inbound = [''PASV'' @ [CHR 0x0D], [CHR 0x0A]], outbound = [], closed = False\<rparr> = None \<and>
   consume_socket \<lparr>inbound = [''PASV'' @ CRLF], outbound = [], closed = False\<rparr> =
     Some \<lparr>inbound = [], outbound = [], closed = False\<rparr>"
proof -
  let ?r = "\<lparr>inbound = [], outbound = [], closed = False\<rparr>"
  let ?s = "\<lparr>inbound = [''PASV'' @ CRLF], outbound = [], closed = False\<rparr>"
  have a: "consume_socket \<lparr>inbound = [''PASV'' @ [CHR 0x0D], [CHR 0x0A]], outbound = [], closed = False\<rparr> =
      consume_socket ?r"
    using split_terminator_not_seen[of ?r ?r "''PASV''" "[]" "[]" "[]" False] by simp
  have b: "consume_socket ?s = Some ?r"
    by (simp add: consume_socket_Cons[of _ "''PASV'' @ CRLF" "[]"] endswith_def CRLF_def)
  from split_terminator_not_seen[of ?s ?r "[]" "[]" "[]" "[]" False] b
  have "\<exists>pre data. inbound ?s = pre @ data # inbound ?r \<and> endswith data CRLF" by blast
  with a b show ?thesis by (simp add: consume_socket_eof)
qed

section \<open>The IPv6 probe never raises\<close>

text \<open>
  C7: for every host, \<^verbatim>\<open>_has_ipv6\<close> returns a boolean and never raises. The result
  is true exactly when the creation of the IPv6 socket and its bind to the host both
  returned, which they do exactly when the interpreter has IPv6 support and the system
  allows both calls. Whenever a socket was created, the last call is its close, and it is
  the only close; when none was created, nothing was called.
\<close>

theorem has_ipv6_probe:
  "\<exists>b evs. has_ipv6 env host = (Inr b, evs) \<and>
     (b \<longleftrightarrow> EvSocket AF_INET6 \<in> set evs \<and> EvBind AF_INET6 host \<in> set evs) \<and>
     (b \<longleftrightarrow> build_has_ipv6 env \<and> can_create env AF_INET6 \<and> can_bind env AF_INET6 host) \<and>
     (EvSocket AF_INET6 \<in> set evs \<longrightarrow>
        (\<exists>mid. evs = EvSocket AF_INET6 # mid @ [EvSockClose] \<and> EvSockClose \<notin> set mid \<and>
           EvSocket AF_INET6 \<notin> set mid)) \<and>
     (EvSocket AF_INET6 \<notin> set evs \<longrightarrow> evs = [])"
  by (auto simp add: has_ipv6_def probe_try_def Let_def)

theorem has_ipv6_probe_witness:
  "has_ipv6 \<lparr>build_has_ipv6 = True, can_create = (\<lambda>f. True), can_bind = (\<lambda>f h. f = AF_INET),
      can_listen = True, ephemeral_port = 50000, win32 = False\<rparr> ''localhost'' =
     (Inr False, [EvSocket AF_INET6, EvSockClose]) \<and>
   has_ipv6 \<lparr>build_has_ipv6 = True, can_create = (\<lambda>f. True), can_bind = (\<lambda>f h. True),
      can_listen = True, ephemeral_port = 50000, win32 = False\<rparr> ''::1'' =
     (Inr True, [EvSocket AF_INET6, EvBind AF_INET6 ''::1'', EvSockClose])"
proof -
  let ?e1 = "\<lparr>build_has_ipv6 = True, can_create = (\<lambda>f. True), can_bind = (\<lambda>f h. f = AF_INET),
      can_listen = True, ephemeral_port = 50000, win32 = False\<rparr>"
  let ?e2 = "\<lparr>build_has_ipv6 = True, can_create = (\<lambda>f. True), can_bind = (\<lambda>f h. True),
      can_listen = True, ephemeral_port = 50000, win32 = False\<rparr>"
  from has_ipv6_probe[of ?e1 "''localhost''"] obtain b1 evs1 where
    p1: "has_ipv6 ?e1 ''localhost'' = (Inr b1, evs1)"
      "b1 \<longleftrightarrow> build_has_ipv6 ?e1 \<and> can_create ?e1 AF_INET6 \<and> can_bind ?e1 AF_INET6 ''localhost''"
    by blast
  from has_ipv6_probe[of ?e2 "''::1''"] obtain b2 evs2 where
    p2: "has_ipv6 ?e2 ''::1'' = (Inr b2, evs2)"
      "b2 \<longleftrightarrow> build_has_ipv6 ?e2 \<and> can_create ?e2 AF_INET6 \<and> can_bind ?e2 AF_INET6 ''::1''"
    by blast
  from p1 p2 show ?thesis
    by (simp add: has_ipv6_def probe_try_def Let_def)
qed

section \<open>The ready signal\<close>

text \<open>
  C3: take a run of the server thread that was given a ready event and in which the
  creation of the socket, \<^verbatim>\<open>bind\<close> and \<^verbatim>\<open>listen\<close> return. The thread sets the
  event exactly once. Just before it, in this order, \<^verbatim>\<open>bind\<close> returned, the assigned
  port was stored on the thread, and \<^verbatim>\<open>listen\<close> returned; nothing was accepted before.
  The handler, whatever it is, starts only in the state reached after the event was set,
  so every accept comes later; the scripted handlers of the harnesses never set the event
  again.
\<close>

theorem ready_signal_order:
  assumes "can_create env (chosen_family env w)"
    and "can_bind env (chosen_family env w) host"
    and "can_listen env"
  shows "\<exists>w1 pre.
     listen_phase env host True w = Returns () w1 \<and>
     thread_start_server c env host True handler w = handle_socket c handler w1 \<and>
     trace w1 = trace w @ pre @
       [EvBind (chosen_family env w) host, EvPublishPort (ephemeral_port env), EvListen, EvReady] \<and>
     EvReady \<notin> set pre \<and> (\<forall>k. EvAccept k \<notin> set pre) \<and>
     thread_port w1 = Some (ephemeral_port env) \<and> thread_ready w1 \<and>
     (\<forall>response num block_send. \<exists>evs.
        trace (world_of (thread_start_server c env host True
                 (socket_handler response num block_send) w)) = trace w1 @ evs \<and>
        EvReady \<notin> set evs) \<and>
     (\<forall>script response num block_send. \<exists>evs.
        trace (world_of (thread_start_server c env host True
                 (ftp_socket_handler script response num block_send) w)) = trace w1 @ evs \<and>
        EvReady \<notin> set evs)"
proof -
  let ?pre = "(if USE_IPV6 env w then [] else [EvWarnNoIPv6]) @ [EvSocket (chosen_family env w)] @
     (if win32 env then [] else [EvReuseAddr])"
  let ?w1 = "w\<lparr>trace := trace w @ startup_events env host w @ [EvReady],
          listener := Some (chosen_family env w), listener_closed := False,
          thread_port := Some (ephemeral_port env),
          thread_ready := True\<rparr>"
  have lp: "listen_phase env host True w = Returns () ?w1"
    using listen_phase_ok[OF assms, of True] by simp
  have run: "thread_start_server c env host True h w = handle_socket c h ?w1" for h
    by (simp add: thread_start_server_def lp)
  have tr: "trace ?w1 = trace w @ ?pre @
       [EvBind (chosen_family env w) host, EvPublishPort (ephemeral_port env), EvListen, EvReady]"
    by (simp add: startup_events_def)
  have pre: "EvReady \<notin> set ?pre" "\<forall>k. EvAccept k \<notin> set ?pre" by simp_all
  have a: "\<exists>evs. trace (world_of (thread_start_server c env host True
                 (socket_handler response num block_send) w)) = trace ?w1 @ evs \<and>
        EvReady \<notin> set evs" for response num block_send
    unfolding run
    using handle_socket_trace[of "socket_handler response num block_send" c ?w1]
      socket_handler_extends by blast
  have b: "\<exists>evs. trace (world_of (thread_start_server c env host True
                 (ftp_socket_handler script response num block_send) w)) = trace ?w1 @ evs \<and>
        EvReady \<notin> set evs" for script response num block_send
    unfolding run
    using handle_socket_trace[of "ftp_socket_handler script response num block_send" c ?w1]
      ftp_socket_handler_extends by blast
  have p: "thread_port ?w1 = Some (ephemeral_port env)" "thread_ready ?w1" by simp_all
  from lp run[of handler] tr pre a b p show ?thesis by blast
qed

theorem ready_signal_order_witness:
  "can_create dual_stack (chosen_family dual_stack (fresh [[''RETR a'' @ CRLF]] False 0)) \<and>
   can_bind dual_stack (chosen_family dual_stack (fresh [[''RETR a'' @ CRLF]] False 0)) ''localhost'' \<and>
   can_listen dual_stack \<and>
   trace (world_of (thread_start_server SocketServerThread dual_stack ''localhost'' True
            (socket_handler ''226 ok'' 1 False) (fresh [[''RETR a'' @ CRLF]] False 0))) =
     [EvSocket AF_INET6, EvReuseAddr, EvBind AF_INET6 ''localhost'', EvPublishPort 50000,
      EvListen, EvReady, EvIterReady, EvAccept 0, EvSend 0 ''226 ok'', EvSockClose]"
proof -
  let ?w = "fresh [[''RETR a'' @ CRLF]] False 0"
  let ?h = "socket_handler ''226 ok'' 1 False"
  have h1: "can_create dual_stack (chosen_family dual_stack ?w)"
    and h2: "can_bind dual_stack (chosen_family dual_stack ?w) ''localhost''"
    and h3: "can_listen dual_stack"
    by (simp_all add: dual_stack_def)
  from ready_signal_order[OF h1 h2 h3, of SocketServerThread ?h] obtain w1 where
    a: "listen_phase dual_stack ''localhost'' True ?w = Returns () w1"
    and b: "thread_start_server SocketServerThread dual_stack ''localhost'' True ?h ?w =
            handle_socket SocketServerThread ?h w1"
    by blast
  have fam: "chosen_family dual_stack ?w = AF_INET6"
    by (simp add: chosen_family_def USE_IPV6_def fresh_def dual_stack_six)
  have "listen_phase dual_stack ''localhost'' True ?w = Returns ()
     (?w\<lparr>trace := [EvSocket AF_INET6, EvReuseAddr, EvBind AF_INET6 ''localhost'',
         EvPublishPort 50000, EvListen, EvReady],
        listener := Some AF_INET6, listener_closed := False,
        thread_port := Some 50000, thread_ready := True\<rparr>)"
    using listen_phase_ok[OF h1 h2 h3, of True] fam
    by (simp add: startup_events_def USE_IPV6_def fresh_def dual_stack_six)
       (simp add: dual_stack_def)
  with a have w1: "w1 = ?w\<lparr>trace := [EvSocket AF_INET6, EvReuseAddr, EvBind AF_INET6 ''localhost'',
         EvPublishPort 50000, EvListen, EvReady],
        listener := Some AF_INET6, listener_closed := False,
        thread_port := Some 50000, thread_ready := True\<rparr>" by simp
  have "trace (world_of (handle_socket SocketServerThread ?h w1)) =
     [EvSocket AF_INET6, EvReuseAddr, EvBind AF_INET6 ''localhost'', EvPublishPort 50000,
      EvListen, EvReady, EvIterReady, EvAccept 0, EvSend 0 ''226 ok'', EvSockClose]"
    unfolding w1
    by (simp add: handle_socket_def handler_defs prim_defs fresh_def drain_eval)
  with b h1 h2 h3 show ?thesis by simp
qed

section \<open>The IPv4-only harness\<close>



section \<open>The FTP handshake\<close>



section \<open>Connections accepted and responses sent\<close>

text \<open>
  C4: let \<^verbatim>\<open>num\<close> clients connect, each sending a request of which some read ends
  with CR LF, and let the gate, when one is supplied, be released often enough. Then the
  handler built by \<^verbatim>\<open>start_response_handler\<close> returns; it has accepted exactly
  \<^verbatim>\<open>num\<close> connections, and it has called \<^verbatim>\<open>send\<close> exactly \<^verbatim>\<open>num\<close> times, once
  on each accepted connection in the order of acceptance, each time with the whole
  response, whatever its length. The list it returns holds the accepted sockets.
  A call of \<^verbatim>\<open>send\<close> is taken to hand all its bytes to the system, as it does on a
  blocking socket.
\<close>

theorem handler_accepts_and_sends:
  assumes "backlog w = clients @ others"
    and "int (length clients) = num"
    and "\<forall>client \<in> set clients. \<exists>data \<in> set client. endswith data CRLF"
    and "block_send \<longrightarrow> nat num \<le> gate_releases w + (if gate_flag w then 1 else 0)"
  shows "\<exists>w' new.
     socket_handler response num block_send w = Returns (length (heap w)) w' \<and>
     backlog w' = others \<and>
     conns w' = conns w @ new \<and> length new = nat num \<and>
     (\<forall>c \<in> set new. outbound c = [response] \<and> \<not> closed c) \<and>
     accepts (trace w') = accepts (trace w) @ [length (conns w) ..< length (conns w) + nat num] \<and>
     sends (trace w') =
       sends (trace w) @
       map (\<lambda>s. (s, response)) [length (conns w) ..< length (conns w) + nat num] \<and>
     heap w' ! length (heap w) = [length (conns w) ..< length (conns w) + nat num]"
proof -
  let ?w0 = "w\<lparr>heap := heap w @ [[]]\<rparr>"
  have n: "nat num = length clients" using assms(2) by auto
  have b: "backlog ?w0 = clients @ others" using assms(1) by simp
  have g: "block_send \<longrightarrow> length clients \<le> gate_releases ?w0 + (if gate_flag ?w0 then 1 else 0)"
    using assms(4) n by simp
  have sk: "length (heap w) < length (heap ?w0)" by simp
  from response_loop_ok[OF b assms(3) g sk, of response] obtain w' new where
    lp: "response_loop (length clients) response block_send (length (heap w)) ?w0 = Returns () w'"
    and r: "backlog w' = others" "conns w' = conns ?w0 @ new" "length new = length clients"
      "\<forall>c \<in> set new. outbound c = [response] \<and> \<not> closed c"
      "accepts (trace w') =
         accepts (trace ?w0) @ [length (conns ?w0) ..< length (conns ?w0) + length clients]"
      "sends (trace w') = sends (trace ?w0) @
         map (\<lambda>s. (s, response)) [length (conns ?w0) ..< length (conns ?w0) + length clients]"
      "heap w' = (heap ?w0)[length (heap w) := heap ?w0 ! length (heap w) @
         [length (conns ?w0) ..< length (conns ?w0) + length clients]]"
    by blast
  have run: "socket_handler response num block_send w = Returns (length (heap w)) w'"
    using lp n by (simp add: socket_handler_def)
  have hp: "heap w' ! length (heap w) = [length (conns w) ..< length (conns w) + nat num]"
    using r(7) n by simp
  from run r(1-6) hp n show ?thesis by auto
qed

theorem handler_accepts_and_sends_witness:
  "\<exists>w'. socket_handler ''226 Transfer complete.'' 2 False
       (fresh [[''RETR a'' @ CRLF], [''RETR'', '' b'' @ CRLF]] False 0) = Returns 1 w' \<and>
     accepts (trace w') = [0, 1] \<and>
     sends (trace w') = [(0, ''226 Transfer complete.''), (1, ''226 Transfer complete.'')] \<and>
     length (conns w') = 2 \<and>
     (\<forall>c \<in> set (conns w'). outbound c = [''226 Transfer complete.''])"
proof -
  let ?clients = "[[''RETR a'' @ CRLF], [''RETR'', '' b'' @ CRLF]]"
  let ?w = "fresh ?clients False 0"
  have b: "backlog ?w = ?clients @ []" by (simp add: fresh_def)
  have n: "int (length ?clients) = 2" by simp
  have c: "\<forall>client \<in> set ?clients. \<exists>data \<in> set client. endswith data CRLF"
    by (simp add: endswith_def CRLF_def)
  have g: "False \<longrightarrow> nat 2 \<le> gate_releases ?w + (if gate_flag ?w then 1 else 0)" by simp
  from handler_accepts_and_sends[OF b n c g, of "''226 Transfer complete.''"]
  obtain w' new where
    "socket_handler ''226 Transfer complete.'' 2 False ?w = Returns (length (heap ?w)) w'"
    "conns w' = conns ?w @ new" "length new = nat 2"
    "\<forall>c \<in> set new. outbound c = [''226 Transfer complete.''] \<and> \<not> closed c"
    "accepts (trace w') = accepts (trace ?w) @ [length (conns ?w) ..< length (conns ?w) + nat 2]"
    "sends (trace w') = sends (trace ?w) @
       map (\<lambda>s. (s, ''226 Transfer complete.''))
         [length (conns ?w) ..< length (conns ?w) + nat 2]"
    by blast
  then show ?thesis by (simp add: fresh_def upt_rec)
qed

section \<open>The pacing gate\<close>

text \<open>
  C8: with a gate supplied, an iteration that finds the gate unset and never released
  does not return and sends nothing: the connection it accepted has received no byte.
  An iteration that returns has sent the response as its last action, directly after
  \<^verbatim>\<open>block_send.wait()\<close> returned and \<^verbatim>\<open>block_send.clear()\<close> was called, and nothing
  was sent earlier in it; the gate was set before the iteration or was released during it,
  and it is unset when the iteration ends, so the next iteration waits again. Over a
  whole handler run the responses sent are never more than the releases of the gate.
\<close>

theorem gate_paces_response:
  "(\<not> gate_flag w \<and> gate_releases w = 0 \<longrightarrow>
      (\<exists>w'. response_iteration response True socks w = Blocks w' \<and>
         sends (trace w') = sends (trace w) \<and>
         (\<forall>c \<in> set (drop (length (conns w)) (conns w')). outbound c = []))) \<and>
   (\<forall>w'. response_iteration response True socks w = Returns () w' \<longrightarrow>
      (\<exists>pre. trace w' = trace w @ pre @
           [EvGateWait, EvGateClear, EvSend (length (conns w)) response] \<and>
         sends pre = [] \<and> (gate_flag w \<or> EvGateSet \<in> set pre) \<and> \<not> gate_flag w')) \<and>
   length (sends (trace (world_of (socket_handler response num True w)))) \<le>
     length (sends (trace w)) + gate_releases w + (if gate_flag w then 1 else 0)"
proof (intro conjI impI allI)
  assume "\<not> gate_flag w \<and> gate_releases w = 0"
  then show "\<exists>w'. response_iteration response True socks w = Blocks w' \<and>
         sends (trace w') = sends (trace w) \<and>
         (\<forall>c \<in> set (drop (length (conns w)) (conns w')). outbound c = [])"
    using response_iteration_unreleased[of w response socks] by blast
next
  fix w'
  assume "response_iteration response True socks w = Returns () w'"
  then show "\<exists>pre. trace w' = trace w @ pre @
           [EvGateWait, EvGateClear, EvSend (length (conns w)) response] \<and>
         sends pre = [] \<and> (gate_flag w \<or> EvGateSet \<in> set pre) \<and> \<not> gate_flag w'"
    by (rule response_iteration_released)
next
  have "length (sends (trace (world_of (socket_handler response num True w)))) \<le>
      pending (world_of (socket_handler response num True w))"
    by (simp add: pending_def)
  also have "\<dots> \<le> pending w" by (rule socket_handler_pending)
  finally show "length (sends (trace (world_of (socket_handler response num True w)))) \<le>
     length (sends (trace w)) + gate_releases w + (if gate_flag w then 1 else 0)"
    by (simp add: pending_def)
qed

theorem gate_paces_response_witness:
  "(\<exists>w'. response_iteration ''226 ok'' True 0 (fresh [[''RETR a'' @ CRLF]] False 0) = Blocks w' \<and>
      sends (trace w') = [] \<and> map outbound (conns w') = [[]]) \<and>
   (\<exists>w'. response_iteration ''226 ok'' True 0 (fresh [[''RETR a'' @ CRLF]] False 1) = Returns () w' \<and>
      trace w' = [EvIterReady, EvAccept 0, EvGateSet, EvGateWait, EvGateClear, EvSend 0 ''226 ok''] \<and>
      \<not> gate_flag w') \<and>
   sends (trace (world_of (socket_handler ''226 ok'' 2 True
      (fresh [[''RETR a'' @ CRLF], [''RETR b'' @ CRLF]] False 1)))) = [(0, ''226 ok'')]"
proof -
  let ?w0 = "fresh [[''RETR a'' @ CRLF]] False 0"
  let ?w1 = "fresh [[''RETR a'' @ CRLF]] False 1"
  let ?w2 = "fresh [[''RETR a'' @ CRLF], [''RETR b'' @ CRLF]] False 1"
  have h: "\<not> gate_flag ?w0 \<and> gate_releases ?w0 = 0" by (simp add: fresh_def)
  from gate_paces_response[of ?w0 "''226 ok''" 0 1] h obtain w' where
    b: "response_iteration ''226 ok'' True 0 ?w0 = Blocks w'" "sends (trace w') = sends (trace ?w0)"
    by blast
  have b': "response_iteration ''226 ok'' True 0 ?w0 =
      Blocks (?w0\<lparr>trace := [EvIterReady, EvAccept 0], backlog := [],
        conns := [\<lparr>inbound = [], outbound = [], closed = False\<rparr>]\<rparr>)"
    by (simp add: response_iteration_def prim_defs fresh_def drain_eval)
  from b b' have 1: "\<exists>w'. response_iteration ''226 ok'' True 0 ?w0 = Blocks w' \<and>
      sends (trace w') = [] \<and> map outbound (conns w') = [[]]"
    by (simp add: fresh_def)
  have r: "response_iteration ''226 ok'' True 0 ?w1 =
      Returns () (?w1\<lparr>trace := [EvIterReady, EvAccept 0, EvGateSet, EvGateWait, EvGateClear,
          EvSend 0 ''226 ok''], backlog := [],
        conns := [\<lparr>inbound = [], outbound = [''226 ok''], closed = False\<rparr>],
        gate_releases := 0, gate_flag := False, heap := [[0]]\<rparr>)"
    by (simp add: response_iteration_def prim_defs fresh_def drain_eval)
  from gate_paces_response[of ?w1 "''226 ok''" 0 1] r
  have 2: "\<exists>w'. response_iteration ''226 ok'' True 0 ?w1 = Returns () w' \<and>
      trace w' = [EvIterReady, EvAccept 0, EvGateSet, EvGateWait, EvGateClear, EvSend 0 ''226 ok''] \<and>
      \<not> gate_flag w'"
    by simp
  have 3: "sends (trace (world_of (socket_handler ''226 ok'' 2 True ?w2))) = [(0, ''226 ok'')]"
    by (simp add: handler_defs prim_defs fresh_def drain_eval eval_nat_numeral)
  from 1 2 3 show ?thesis by blast
qed

section \<open>Deferred closing of the accepted sockets\<close>

text \<open>
  C1, evaluated on a run of \<^verbatim>\<open>DelayedCloseSocketDummyServer\<close> with one scripted
  connection. \<^verbatim>\<open>_start_server\<close> copies \<^verbatim>\<open>cls.server_thread.socks\<close> as soon as the
  server is ready, when it still is the empty list made by \<^verbatim>\<open>__init__\<close> (reference 1).
  When the handler returns, \<^verbatim>\<open>_handle_socket\<close> binds \<^verbatim>\<open>self.socks\<close> to the handler's
  own list (reference 2), which holds the accepted socket. \<^verbatim>\<open>cleanup()\<close> walks the
  list of the class, which is still empty: it closes nothing and the accepted socket
  stays open.
\<close>

theorem delayed_cleanup_closes_nothing:
  "\<exists>w'. scripted_run DelayedCloseSocketDummyServer dual_stack ''localhost''
       (socket_handler ''226 ok'' 1 False) (fresh [[''RETR a'' @ CRLF]] False 0) = Returns () w' \<and>
     thread_socks w' = Some 2 \<and> heap w' ! 2 = [0] \<and>
     cls_socks w' = 1 \<and> heap w' ! 1 = [] \<and>
     cleanup w' = w' \<and>
     map closed (conns (cleanup w')) = [False]"
  by (simp add: harness_defs thread_defs handler_defs prim_defs fresh_def dual_stack_def drain_eval)

section \<open>Sockets left open after the test\<close>

text \<open>
  C5, evaluated on a run of \<^verbatim>\<open>FTPSocketDummyServer\<close>, a delayed-close variant, with
  one scripted connection whose client answers the welcome, login and binary-mode lines.
  The run returns. The accepted socket is in the list the server thread holds, while the
  list of the class is the empty one copied at start. \<^verbatim>\<open>cleanup()\<close> therefore makes
  no call of \<^verbatim>\<open>close\<close>, and after it the accepted socket is still open and still
  referenced: it outlives the test. This is the defect of C1, seen from the claim that no
  socket leaks.
\<close>

theorem ftp_cleanup_leaves_socket_open:
  "\<exists>w'. scripted_run FTPSocketDummyServer dual_stack ''localhost''
       (ftp_socket_handler default_script ''226 ok'' 1 False)
       (fresh [[''USER anonymous'' @ CRLF, ''TYPE I'' @ CRLF, ''PASV'' @ CRLF]] False 0) =
       Returns () w' \<and>
     thread_socks w' = Some 2 \<and> heap w' ! 2 = [0] \<and>
     cls_socks w' = 1 \<and> heap w' ! 1 = [] \<and>
     (\<forall>k. EvClose k \<notin> set (trace (cleanup w'))) \<and>
     retained_open (cleanup w') = [0]"
  by (simp add: harness_defs thread_defs handler_defs prim_defs fresh_def dual_stack_def drain_eval
      default_script_def retained_open_def)

end
